theory Spec2Isabelle
  imports Complex_Main "HOL-Library.Sublist"
begin

section \<open>Strings of the resolver\<close>

text \<open>
  A JavaScript string is modelled as a \<open>string\<close>: a list of code units, here the code
  units below 256. \<open>startsWith\<close> is \<open>prefix\<close>, \<open>endsWith\<close> is \<open>suffix\<close>,
  \<open>slice(n)\<close> is \<open>drop n\<close>, \<open>===\<close> on two strings is equality.
\<close>

definition is_digit :: "char \<Rightarrow> bool" where
  \<comment> \<open>the class \<open>\d\<close>\<close>
  "is_digit c = (c \<in> set ''0123456789'')"

definition is_hex :: "char \<Rightarrow> bool" where
  \<comment> \<open>the class \<open>[a-f0-9]\<close> under the flag \<open>i\<close>\<close>
  "is_hex c = (c \<in> set ''abcdef0123456789ABCDEF'')"

definition is_hex_or_hyphen :: "char \<Rightarrow> bool" where
  \<comment> \<open>the class \<open>[a-f0-9-]\<close> under the flag \<open>i\<close>\<close>
  "is_hex_or_hyphen c = (is_hex c \<or> c = CHR ''-'')"

definition is_space :: "char \<Rightarrow> bool" where
  \<comment> \<open>what \<open>String.prototype.trim\<close> strips: tab, line feed, vertical tab, form feed,
      carriage return, space and no-break space\<close>
  "is_space c = (c \<in> set [CHR 0x09, CHR 0x0A, CHR 0x0B, CHR 0x0C, CHR 0x0D, CHR 0x20, CHR 0xA0])"

definition trim :: "string \<Rightarrow> string" where
  "trim s = rev (dropWhile is_space (rev (dropWhile is_space s)))"

text \<open>A text with no whitespace at either end, and not empty.\<close>

definition well_trimmed :: "string \<Rightarrow> bool" where
  "well_trimmed d = (d \<noteq> [] \<and> \<not> is_space (hd d) \<and> \<not> is_space (last d))"

section \<open>Domain matcher\<close>

definition matchDomain :: "string \<Rightarrow> string \<Rightarrow> bool" where
  "matchDomain hostname pattern =
     (if hostname = pattern then True
      else if prefix ''*.'' pattern then
        (let suffix_str = drop 1 pattern
         in suffix suffix_str hostname \<or> hostname = drop 2 pattern)
      else False)"

section \<open>Dynamic-segment classifier\<close>

definition isDynamicSegment :: "string \<Rightarrow> bool" where
  "isDynamicSegment segment =
     (if segment \<noteq> [] \<and> list_all is_digit segment then True
      else if length segment = 36 \<and> list_all is_hex_or_hyphen segment then True
      else if 8 \<le> length segment \<and> list_all is_hex segment then True
      else if length segment = 24 \<and> list_all is_hex segment then True
      else False)"

section \<open>Paths\<close>

text \<open>
  \<open>split_on\<close> is \<open>String.prototype.split\<close> with a one-character separator: the empty
  string splits into one empty piece. \<open>join_with\<close> is \<open>Array.prototype.join\<close>.
\<close>

fun split_on :: "char \<Rightarrow> string \<Rightarrow> string list" where
  "split_on d [] = [[]]"
| "split_on d (c # cs) =
     (if c = d then [] # split_on d cs
      else (let pieces = split_on d cs in (c # hd pieces) # tl pieces))"

fun join_with :: "string \<Rightarrow> string list \<Rightarrow> string" where
  "join_with sep [] = []"
| "join_with sep [x] = x"
| "join_with sep (x # y # ys) = x @ sep @ join_with sep (y # ys)"

text \<open>
  \<open>join\<close> of the platform's path module, on POSIX: the non-empty arguments are joined with
  a slash and the result is normalised, which drops empty and \<open>.\<close> segments and resolves
  \<open>..\<close> against the segment before it. \<open>normalizeSegments\<close> keeps the segments
  found so far in \<open>res\<close>.
\<close>

fun normalizeSegments :: "bool \<Rightarrow> string list \<Rightarrow> string list \<Rightarrow> string list" where
  "normalizeSegments allowAboveRoot res [] = res"
| "normalizeSegments allowAboveRoot res (seg # segs) =
     (if seg = [] \<or> seg = ''.'' then normalizeSegments allowAboveRoot res segs
      else if seg = ''..'' then
        (if res \<noteq> [] \<and> last res \<noteq> ''..''
           then normalizeSegments allowAboveRoot (butlast res) segs
         else if allowAboveRoot
           then normalizeSegments allowAboveRoot (res @ [''..'']) segs
         else normalizeSegments allowAboveRoot res segs)
      else normalizeSegments allowAboveRoot (res @ [seg]) segs)"

definition normalize :: "string \<Rightarrow> string" where
  "normalize path =
     (if path = [] then ''.''
      else
        (let isAbsolute = (hd path = CHR ''/'');
             trailingSeparator = (last path = CHR ''/'');
             p = join_with ''/'' (normalizeSegments (\<not> isAbsolute) [] (split_on CHR ''/'' path))
         in if p = [] then
              (if isAbsolute then ''/'' else if trailingSeparator then ''./'' else ''.'')
            else (if isAbsolute then ''/'' else []) @ p
                 @ (if trailingSeparator then ''/'' else [])))"

definition path_join :: "string list \<Rightarrow> string" where
  "path_join args =
     (let parts = filter (\<lambda>a. a \<noteq> []) args
      in if parts = [] then ''.'' else normalize (join_with ''/'' parts))"

text \<open>
  The path of a URL, normalised as \<open>resolve\<close> does: one trailing slash removed, the
  empty result replaced by a slash, then split at slashes with the empty pieces dropped.
\<close>

definition normalizedPath :: "string \<Rightarrow> string" where
  "normalizedPath pathname =
     (let replaced = (if pathname \<noteq> [] \<and> last pathname = CHR ''/''
                      then butlast pathname else pathname)
      in if replaced = [] then ''/'' else replaced)"

definition segments_of :: "string \<Rightarrow> string list" where
  "segments_of pathname = filter (\<lambda>s. s \<noteq> []) (split_on CHR ''/'' (normalizedPath pathname))"

section \<open>Instruction store\<close>

text \<open>
  The store is the file system as the resolver sees it: what is at a path, if anything.
  A directory carries its listing (name and whether the entry is a directory, in the order
  \<open>readdirSync\<close> gives them); a file carries its decoded text; \<open>Unreadable\<close> is an entry
  that exists and whose reading fails.
\<close>

datatype node = Directory "(string \<times> bool) list" | File string | Unreadable

type_synonym filesystem = "string \<Rightarrow> node option"

datatype error = TypeError | FsError

definition existsSync :: "filesystem \<Rightarrow> string \<Rightarrow> bool" where
  "existsSync fs p = (fs p \<noteq> None)"

definition readFileSync :: "filesystem \<Rightarrow> string \<Rightarrow> error + string" where
  "readFileSync fs p = (case fs p of Some (File text) \<Rightarrow> Inr text | _ \<Rightarrow> Inl FsError)"

definition readdirSync :: "filesystem \<Rightarrow> string \<Rightarrow> error + (string \<times> bool) list" where
  "readdirSync fs p = (case fs p of Some (Directory entries) \<Rightarrow> Inr entries | _ \<Rightarrow> Inl FsError)"

definition loadFile :: "filesystem \<Rightarrow> string \<Rightarrow> string \<Rightarrow> string option" where
  "loadFile fs instructionsDir relativePath =
     (let fullPath = path_join [instructionsDir, relativePath]
      in if existsSync fs fullPath then
           (case readFileSync fs fullPath of
              Inr text \<Rightarrow> Some (trim text)
            | Inl e \<Rightarrow> None)
         else None)"

text \<open>\<open>if (doc) instructions.push(doc)\<close>: null and the empty string are not pushed.\<close>

definition push_truthy :: "string option \<Rightarrow> string list \<Rightarrow> string list" where
  "push_truthy doc instructions =
     (case doc of
        Some text \<Rightarrow> if text \<noteq> [] then instructions @ [text] else instructions
      | None \<Rightarrow> instructions)"

section \<open>Hierarchical path walker\<close>

text \<open>The inner loop over \<open>foldersToTry\<close>: the first candidate that exists.\<close>

fun matchFolder :: "filesystem \<Rightarrow> string \<Rightarrow> string \<Rightarrow> string list \<Rightarrow> string option" where
  "matchFolder fs instructionsDir currentPath [] = None"
| "matchFolder fs instructionsDir currentPath (folder # folders) =
     (if existsSync fs (path_join [instructionsDir, currentPath, folder]) then Some folder
      else matchFolder fs instructionsDir currentPath folders)"

definition foldersToTry :: "string \<Rightarrow> string list" where
  "foldersToTry segment = (if isDynamicSegment segment then [''_dynamic'', ''*''] else [segment])"

text \<open>
  The loop over the segments, which is the same text in both variants of the resolver. The
  remaining segments are the argument; the segment is the last one when none remain after
  it. A matched folder that is the empty string counts as no match, as in the source's
  \<open>if (matchedFolder)\<close>.
\<close>

fun walk :: "filesystem \<Rightarrow> string \<Rightarrow> string \<Rightarrow> string list \<Rightarrow> string list \<Rightarrow> string list" where
  "walk fs instructionsDir currentPath [] instructions = instructions"
| "walk fs instructionsDir currentPath (segment # rest) instructions =
     (let isLastSegment = (rest = []);
          matchedFolder = matchFolder fs instructionsDir currentPath (foldersToTry segment)
      in case matchedFolder of
           None \<Rightarrow>
             (if isLastSegment then
                push_truthy (loadFile fs instructionsDir (path_join [currentPath, segment @ ''.md'']))
                  instructions
              else instructions)
         | Some folder \<Rightarrow>
             (if folder = [] then
                (if isLastSegment then
                   push_truthy (loadFile fs instructionsDir (path_join [currentPath, segment @ ''.md'']))
                     instructions
                 else instructions)
              else
                (let currentPath' = path_join [currentPath, folder];
                     withBase = push_truthy
                       (loadFile fs instructionsDir (path_join [currentPath', ''_base.md'']))
                       instructions;
                     withIndex =
                       (if isLastSegment then
                          push_truthy
                            (loadFile fs instructionsDir (path_join [currentPath', ''index.md'']))
                            withBase
                        else withBase)
                 in walk fs instructionsDir currentPath' rest withIndex)))"

text \<open>Step 3 of \<open>resolve\<close>: the exact file, pushed unless its text is already there.\<close>

definition push_exact :: "string option \<Rightarrow> string list \<Rightarrow> string list" where
  "push_exact exactFile instructions =
     (case exactFile of
        Some text \<Rightarrow>
          if text \<noteq> [] \<and> text \<notin> set instructions then instructions @ [text] else instructions
      | None \<Rightarrow> instructions)"

definition separator :: string where
  "separator = [CHR 0x0A, CHR 0x0A, CHR ''-'', CHR ''-'', CHR ''-'', CHR 0x0A, CHR 0x0A]"

definition merge :: "string list \<Rightarrow> string option" where
  "merge instructions =
     (if instructions \<noteq> [] then Some (join_with separator instructions) else None)"

section \<open>Single-tenant resolver\<close>

text \<open>
  The URL parser of the platform is a parameter: \<open>parseURL url\<close> is the hostname and the
  pathname of \<open>new URL(url)\<close>, or \<open>None\<close> where the constructor throws.
\<close>

type_synonym url_parser = "string \<Rightarrow> (string \<times> string) option"

record resolver =
  instructionsDir :: string
  cache :: "string \<rightharpoonup> string option"

definition new_resolver :: "string \<Rightarrow> resolver" where
  "new_resolver pluginRoot =
     \<lparr>instructionsDir = path_join [pluginRoot, ''instructions''], cache = Map.empty\<rparr>"

definition pathname_single :: "url_parser \<Rightarrow> string \<Rightarrow> string" where
  "pathname_single parseURL url =
     (case parseURL url of
        Some (hostname, pathname) \<Rightarrow> pathname
      | None \<Rightarrow> if prefix ''/'' url then url else ''/'' @ url)"

definition collect_single :: "filesystem \<Rightarrow> string \<Rightarrow> string \<Rightarrow> string list" where
  "collect_single fs dir pathname =
     (let segments = segments_of pathname;
          rootBase = loadFile fs dir ''_base.md'';
          instructions = walk fs dir [] segments (push_truthy rootBase [])
      in if segments \<noteq> [] then
           (let lastSegment = last segments;
                parentPath = join_with ''/'' (butlast segments);
                exactFile = loadFile fs dir (path_join [parentPath, lastSegment @ ''.md''])
            in push_exact exactFile instructions)
         else instructions)"

definition resolve_single ::
  "url_parser \<Rightarrow> filesystem \<Rightarrow> resolver \<Rightarrow> string \<Rightarrow> string option \<times> resolver" where
  "resolve_single parseURL fs r url =
     (case cache r url of
        Some hit \<Rightarrow> (hit, r)
      | None \<Rightarrow>
          (let pathname = pathname_single parseURL url;
               result = merge (collect_single fs (instructionsDir r) pathname)
           in (result, r\<lparr>cache := (cache r)(url \<mapsto> result)\<rparr>)))"

definition clearCache_single :: "resolver \<Rightarrow> resolver" where
  "clearCache_single r = r\<lparr>cache := Map.empty\<rparr>"

section \<open>Multi-tenant resolver\<close>

text \<open>
  What \<open>JSON.parse\<close> returns. The parser itself is a parameter: \<open>JSON_parse text\<close> is the
  parsed value, or \<open>None\<close> where \<open>JSON.parse\<close> throws. An object is the list of its
  members, each key once.
\<close>

datatype json =
  JNull | JBool bool | JNum real | JStr string | JArr "json list" | JObj "(string \<times> json) list"

type_synonym json_parser = "string \<Rightarrow> json option"

text \<open>
  \<open>config.domains\<close>: a member of an object, \<open>undefined\<close> (here \<open>None\<close>) on any other
  value, and a \<open>TypeError\<close> on \<open>null\<close>.
\<close>

fun domains_of :: "json \<Rightarrow> error + json option" where
  "domains_of JNull = Inl TypeError"
| "domains_of (JObj members) = Inr (map_of members ''domains'')"
| "domains_of v = Inr None"

fun truthy :: "json option \<Rightarrow> bool" where
  "truthy None = False"
| "truthy (Some JNull) = False"
| "truthy (Some (JBool b)) = b"
| "truthy (Some (JNum n)) = (n \<noteq> 0)"
| "truthy (Some (JStr s)) = (s \<noteq> [])"
| "truthy (Some (JArr vs)) = True"
| "truthy (Some (JObj members)) = True"

fun isArray :: "json option \<Rightarrow> bool" where
  "isArray (Some (JArr vs)) = True"
| "isArray v = False"

text \<open>\<open>for (const domain of config.domains)\<close>: what the loop iterates over.\<close>

fun iterate :: "json option \<Rightarrow> error + json list" where
  "iterate (Some (JArr vs)) = Inr vs"
| "iterate (Some (JStr s)) = Inr (map (\<lambda>c. JStr [c]) s)"
| "iterate v = Inl TypeError"

text \<open>
  \<open>matchDomain\<close> on a pattern as it comes out of a configuration: a pattern that is not a
  string is not equal to the hostname and has no \<open>startsWith\<close>, so the call throws.
\<close>

fun matchDomain_value :: "string \<Rightarrow> json \<Rightarrow> error + bool" where
  "matchDomain_value hostname (JStr pattern) = Inr (matchDomain hostname pattern)"
| "matchDomain_value hostname v = Inl TypeError"

text \<open>\<open>Map.prototype.set\<close>: a known key keeps its place, a new key goes to the end.\<close>

fun map_set :: "('k \<times> 'v) list \<Rightarrow> 'k \<Rightarrow> 'v \<Rightarrow> ('k \<times> 'v) list" where
  "map_set [] k v = [(k, v)]"
| "map_set ((k', v') # kvs) k v =
     (if k' = k then (k, v) # kvs else (k', v') # map_set kvs k v)"

type_synonym configs = "(string \<times> json) list"

record mt_resolver = resolver +
  configCache :: "configs option"

definition new_mt_resolver :: "string \<Rightarrow> mt_resolver" where
  "new_mt_resolver pluginRoot =
     \<lparr>instructionsDir = path_join [pluginRoot, ''instructions''], cache = Map.empty,
      configCache = None\<rparr>"

text \<open>
  The body of the loop of \<open>loadConfigs\<close> for one entry: the configuration to register, or
  \<open>None\<close> where the entry is skipped. The \<open>try\<close> block covers the read, the parse and the
  test of \<open>config.domains\<close>.
\<close>

definition config_of_entry ::
  "json_parser \<Rightarrow> filesystem \<Rightarrow> string \<Rightarrow> string \<times> bool \<Rightarrow> json option" where
  "config_of_entry JSON_parse fs dir entry =
     (case entry of (name, isDirectory) \<Rightarrow>
        if \<not> isDirectory then None
        else
          (let configPath = path_join [dir, name, ''_config.json'']
           in if existsSync fs configPath then
                (case readFileSync fs configPath of
                   Inl e \<Rightarrow> None
                 | Inr text \<Rightarrow>
                     (case JSON_parse text of
                        None \<Rightarrow> None
                      | Some config \<Rightarrow>
                          (case domains_of config of
                             Inl e \<Rightarrow> None
                           | Inr d \<Rightarrow> if truthy d \<and> isArray d then Some config else None)))
              else None))"

fun load_entries ::
  "json_parser \<Rightarrow> filesystem \<Rightarrow> string \<Rightarrow> (string \<times> bool) list \<Rightarrow> configs \<Rightarrow> configs" where
  "load_entries JSON_parse fs dir [] acc = acc"
| "load_entries JSON_parse fs dir (entry # entries) acc =
     (case config_of_entry JSON_parse fs dir entry of
        None \<Rightarrow> load_entries JSON_parse fs dir entries acc
      | Some config \<Rightarrow> load_entries JSON_parse fs dir entries (map_set acc (fst entry) config))"

definition loadConfigs ::
  "json_parser \<Rightarrow> filesystem \<Rightarrow> mt_resolver \<Rightarrow> (error + configs) \<times> mt_resolver" where
  "loadConfigs JSON_parse fs r =
     (case configCache r of
        Some known \<Rightarrow> (Inr known, r)
      | None \<Rightarrow>
          (if \<not> existsSync fs (instructionsDir r) then (Inr [], r\<lparr>configCache := Some []\<rparr>)
           else
             (case readdirSync fs (instructionsDir r) of
                Inl e \<Rightarrow> (Inl e, r\<lparr>configCache := Some []\<rparr>)
              | Inr entries \<Rightarrow>
                  (let loaded = load_entries JSON_parse fs (instructionsDir r) entries []
                   in (Inr loaded, r\<lparr>configCache := Some loaded\<rparr>)))))"

fun match_domains :: "string \<Rightarrow> json list \<Rightarrow> error + bool" where
  "match_domains hostname [] = Inr False"
| "match_domains hostname (domain # domains) =
     (case matchDomain_value hostname domain of
        Inl e \<Rightarrow> Inl e
      | Inr matched \<Rightarrow> if matched then Inr True else match_domains hostname domains)"

fun find_in_configs :: "string \<Rightarrow> configs \<Rightarrow> error + string option" where
  "find_in_configs hostname [] = Inr None"
| "find_in_configs hostname ((folder, config) # rest) =
     (case domains_of config of
        Inl e \<Rightarrow> Inl e
      | Inr d \<Rightarrow>
          (case iterate d of
             Inl e \<Rightarrow> Inl e
           | Inr domains \<Rightarrow>
               (case match_domains hostname domains of
                  Inl e \<Rightarrow> Inl e
                | Inr matched \<Rightarrow>
                    if matched then Inr (Some folder) else find_in_configs hostname rest)))"

definition findInstructionSet ::
  "json_parser \<Rightarrow> filesystem \<Rightarrow> mt_resolver \<Rightarrow> string \<Rightarrow> (error + string option) \<times> mt_resolver"
  where
  "findInstructionSet JSON_parse fs r hostname =
     (case loadConfigs JSON_parse fs r of
        (Inl e, r') \<Rightarrow> (Inl e, r')
      | (Inr configs, r') \<Rightarrow> (find_in_configs hostname configs, r'))"

definition collect_multi :: "filesystem \<Rightarrow> string \<Rightarrow> string \<Rightarrow> string \<Rightarrow> string list" where
  "collect_multi fs dir basePath pathname =
     (let segments = segments_of pathname;
          rootBase = loadFile fs dir (path_join [basePath, ''_base.md'']);
          instructions = walk fs dir basePath segments (push_truthy rootBase [])
      in if segments \<noteq> [] then
           (let lastSegment = last segments;
                parentPath = path_join (basePath # butlast segments);
                exactFile = loadFile fs dir (path_join [parentPath, lastSegment @ ''.md''])
            in push_exact exactFile instructions)
         else instructions)"

text \<open>
  \<open>resolve\<close> of the multi-tenant variant. The outcome is the text, \<open>None\<close> for null, or
  the error the call throws; the resolver after the call comes with it in each case.
\<close>

definition resolve_multi ::
  "url_parser \<Rightarrow> json_parser \<Rightarrow> filesystem \<Rightarrow> mt_resolver \<Rightarrow> string
     \<Rightarrow> (error + string option) \<times> mt_resolver" where
  "resolve_multi parseURL JSON_parse fs r url =
     (case cache r url of
        Some hit \<Rightarrow> (Inr hit, r)
      | None \<Rightarrow>
          (case parseURL url of
             None \<Rightarrow> (Inr None, r\<lparr>cache := (cache r)(url \<mapsto> None)\<rparr>)
           | Some (hostname, pathname) \<Rightarrow>
               (case findInstructionSet JSON_parse fs r hostname of
                  (Inl e, r') \<Rightarrow> (Inl e, r')
                | (Inr None, r') \<Rightarrow> (Inr None, r'\<lparr>cache := (cache r')(url \<mapsto> None)\<rparr>)
                | (Inr (Some instructionSet), r') \<Rightarrow>
                    (if instructionSet = [] then
                       (Inr None, r'\<lparr>cache := (cache r')(url \<mapsto> None)\<rparr>)
                     else
                       (let result = merge
                              (collect_multi fs (instructionsDir r') instructionSet pathname)
                        in (Inr result, r'\<lparr>cache := (cache r')(url \<mapsto> result)\<rparr>))))))"

definition clearCache_multi :: "mt_resolver \<Rightarrow> mt_resolver" where
  "clearCache_multi r = r\<lparr>cache := Map.empty, configCache := None\<rparr>"

section \<open>Reachable resolvers and the descent of the walker\<close>

text \<open>
  The resolvers a caller can hold: a new one, and whatever \<open>resolve\<close> and \<open>clearCache\<close>
  leave behind, the store being free to change between calls.
\<close>

inductive reachable_multi :: "url_parser \<Rightarrow> json_parser \<Rightarrow> mt_resolver \<Rightarrow> bool"
  for parseURL :: url_parser and JSON_parse :: json_parser where
  created: "reachable_multi parseURL JSON_parse (new_mt_resolver pluginRoot)"
| resolved: "reachable_multi parseURL JSON_parse r \<Longrightarrow>
     reachable_multi parseURL JSON_parse (snd (resolve_multi parseURL JSON_parse fs r url))"
| cleared: "reachable_multi parseURL JSON_parse r \<Longrightarrow>
     reachable_multi parseURL JSON_parse (clearCache_multi r)"

inductive reachable_single :: "url_parser \<Rightarrow> resolver \<Rightarrow> bool"
  for parseURL :: url_parser where
  created1: "reachable_single parseURL (new_resolver pluginRoot)"
| resolved1: "reachable_single parseURL r \<Longrightarrow>
     reachable_single parseURL (snd (resolve_single parseURL fs r url))"
| cleared1: "reachable_single parseURL r \<Longrightarrow>
     reachable_single parseURL (clearCache_single r)"

text \<open>
  The directory the loop of the walker stands in after the given segments, when each of
  them matched a folder; \<open>None\<close> when one of them matched none.
\<close>

fun descend :: "filesystem \<Rightarrow> string \<Rightarrow> string \<Rightarrow> string list \<Rightarrow> string option" where
  "descend fs dir currentPath [] = Some currentPath"
| "descend fs dir currentPath (segment # rest) =
     (case matchFolder fs dir currentPath (foldersToTry segment) of
        None \<Rightarrow> None
      | Some folder \<Rightarrow>
          if folder = [] then None
          else descend fs dir (path_join [currentPath, folder]) rest)"

section \<open>Example stores\<close>

text \<open>
  Instances of the two platform parsers for the examples: each agrees with the platform on
  the inputs listed and is used on no other input that the platform accepts.
\<close>

definition demo_parseURL :: url_parser where
  "demo_parseURL url =
     (if url = ''https://semrush.com/'' then Some (''semrush.com'', ''/'')
      else if url = ''https://semrush.com/seo'' then Some (''semrush.com'', ''/seo'')
      else if url = ''https://semrush.com/seo/_base'' then Some (''semrush.com'', ''/seo/_base'')
      else None)"

definition demo_JSON_parse :: json_parser where
  \<open>demo_JSON_parse text =
     (if text = ''{"domains": ["semrush.com", "*.semrush.com"]}''
        then Some (JObj [(''domains'', JArr [JStr ''semrush.com'', JStr ''*.semrush.com''])])
      else if text = ''{"domains": []}'' then Some (JObj [(''domains'', JArr [])])
      else if text = ''{"domains": [42]}'' then Some (JObj [(''domains'', JArr [JNum 42])])
      else None)\<close>

text \<open>
  A store laid out as the repository's own: one instruction set \<open>semrush\<close> with its
  configuration, a base document, and a folder \<open>seo\<close> with a base document and an
  \<open>index.md\<close>.
\<close>

definition demo_store :: filesystem where
  \<open>demo_store p =
     (if p = ''/plugin/instructions'' then Some (Directory [(''semrush'', True)])
      else if p = ''/plugin/instructions/semrush'' then
        Some (Directory [(''_base.md'', False), (''_config.json'', False), (''seo'', True)])
      else if p = ''/plugin/instructions/semrush/_config.json'' then
        Some (File ''{"domains": ["semrush.com", "*.semrush.com"]}'')
      else if p = ''/plugin/instructions/semrush/_base.md'' then Some (File ''Semrush'')
      else if p = ''/plugin/instructions/semrush/seo'' then
        Some (Directory [(''_base.md'', False), (''index.md'', False)])
      else if p = ''/plugin/instructions/semrush/seo/_base.md'' then Some (File ''SEO'')
      else if p = ''/plugin/instructions/semrush/seo/index.md'' then Some (File ''Index'')
      else None)\<close>

text \<open>The same set with a configuration whose list of domains is empty.\<close>

definition empty_domains_store :: filesystem where
  \<open>empty_domains_store p =
     (if p = ''/plugin/instructions'' then Some (Directory [(''semrush'', True)])
      else if p = ''/plugin/instructions/semrush'' then
        Some (Directory [(''_base.md'', False), (''_config.json'', False)])
      else if p = ''/plugin/instructions/semrush/_config.json'' then
        Some (File ''{"domains": []}'')
      else if p = ''/plugin/instructions/semrush/_base.md'' then Some (File ''Semrush'')
      else None)\<close>

text \<open>A store whose instructions directory exists and cannot be listed.\<close>

definition unreadable_store :: filesystem where
  "unreadable_store p = (if p = ''/plugin/instructions'' then Some Unreadable else None)"

text \<open>A set whose configuration lists a number where a pattern is expected.\<close>

definition number_pattern_store :: filesystem where
  \<open>number_pattern_store p =
     (if p = ''/plugin/instructions'' then Some (Directory [(''semrush'', True)])
      else if p = ''/plugin/instructions/semrush'' then
        Some (Directory [(''_base.md'', False), (''_config.json'', False)])
      else if p = ''/plugin/instructions/semrush/_config.json'' then
        Some (File ''{"domains": [42]}'')
      else if p = ''/plugin/instructions/semrush/_base.md'' then Some (File ''Semrush'')
      else None)\<close>

text \<open>The example store after its root base document has been rewritten.\<close>

definition updated_store :: filesystem where
  "updated_store p =
     (if p = ''/plugin/instructions/semrush/_base.md'' then Some (File ''Semrush, revised'')
      else demo_store p)"

text \<open>
  A set whose base document holds a horizontal rule with two blank lines on each side.
\<close>

definition rule_document :: string where
  "rule_document =
     ''A'' @ [CHR 0x0A, CHR 0x0A, CHR 0x0A] @ ''---'' @ [CHR 0x0A, CHR 0x0A, CHR 0x0A] @ ''B''"

definition rule_store :: filesystem where
  \<open>rule_store p =
     (if p = ''/plugin/instructions'' then Some (Directory [(''semrush'', True)])
      else if p = ''/plugin/instructions/semrush'' then
        Some (Directory [(''_base.md'', False), (''_config.json'', False)])
      else if p = ''/plugin/instructions/semrush/_config.json'' then
        Some (File ''{"domains": ["semrush.com", "*.semrush.com"]}'')
      else if p = ''/plugin/instructions/semrush/_base.md'' then Some (File rule_document)
      else None)\<close>

text \<open>
  Scenario A, single-tenant layout: the store holds a root \<open>_base.md\<close> and
  \<open>seo/_base.md\<close> with the given texts, the two directories they are in, and nothing else.
\<close>

definition scenarioA_store :: "string \<Rightarrow> string \<Rightarrow> filesystem" where
  "scenarioA_store rootText seoText p =
     (if p = ''/plugin/instructions'' then Some (Directory [(''_base.md'', False), (''seo'', True)])
      else if p = ''/plugin/instructions/_base.md'' then Some (File rootText)
      else if p = ''/plugin/instructions/seo'' then Some (Directory [(''_base.md'', False)])
      else if p = ''/plugin/instructions/seo/_base.md'' then Some (File seoText)
      else None)"

section \<open>Properties of the domain matcher\<close>

lemma star_dot_prefix: "prefix ''*.'' p \<longleftrightarrow> (\<exists>s. p = ''*.'' @ s)"
  by (auto simp: prefix_def)

text \<open>
  Claim C3. For every hostname \<open>h\<close> and pattern \<open>p\<close>, \<open>matchDomain h p\<close> is true exactly
  when \<open>h\<close> equals \<open>p\<close>, or \<open>p\<close> is \<open>*.\<close> followed by a suffix \<open>s\<close> and \<open>h\<close> ends with
  \<open>.\<close> followed by \<open>s\<close> or equals \<open>s\<close>. The pattern \<open>*.example.com\<close> therefore matches
  \<open>example.com\<close>, \<open>a.example.com\<close> and \<open>a.b.example.com\<close>, and not \<open>notexample.com\<close>.
\<close>

theorem matchDomain_characterisation:
  "(matchDomain h p \<longleftrightarrow>
      h = p \<or> (\<exists>s. p = ''*.'' @ s \<and> (suffix (''.'' @ s) h \<or> h = s)))
   \<and> matchDomain ''example.com'' ''*.example.com''
   \<and> matchDomain ''a.example.com'' ''*.example.com''
   \<and> matchDomain ''a.b.example.com'' ''*.example.com''
   \<and> \<not> matchDomain ''notexample.com'' ''*.example.com''"
proof -
  have general: "matchDomain h p \<longleftrightarrow>
      h = p \<or> (\<exists>s. p = ''*.'' @ s \<and> (suffix (''.'' @ s) h \<or> h = s))"
    unfolding matchDomain_def star_dot_prefix by auto
  have e1: "matchDomain ''example.com'' ''*.example.com''"
    by (simp add: matchDomain_def)
  have e2: "matchDomain ''a.example.com'' ''*.example.com''"
    by (simp add: matchDomain_def suffix_def)
  have e3: "matchDomain ''a.b.example.com'' ''*.example.com''"
    by (simp add: matchDomain_def suffix_def)
  have e4: "\<not> matchDomain ''notexample.com'' ''*.example.com''"
    by (simp add: matchDomain_def suffix_def append_eq_Cons_conv)
  from general e1 e2 e3 e4 show ?thesis by blast
qed

section \<open>Properties of the classifier\<close>

text \<open>
  Claim C8. \<open>isDynamicSegment\<close> is true exactly when the segment is one or more decimal
  digits, or 36 characters each a hexadecimal digit (either case) or a hyphen, or 8 or more
  hexadecimal digits (either case); the test for exactly 24 hexadecimal digits adds nothing.
  As a function of the segment alone, it gives the same answer for the same segment.
\<close>

theorem isDynamicSegment_characterisation:
  "isDynamicSegment segment \<longleftrightarrow>
     (length segment \<ge> 1 \<and> (\<forall>c \<in> set segment. c \<in> set ''0123456789''))
   \<or> (length segment = 36 \<and>
        (\<forall>c \<in> set segment. c \<in> set ''0123456789abcdefABCDEF'' \<or> c = CHR ''-''))
   \<or> (length segment \<ge> 8 \<and> (\<forall>c \<in> set segment. c \<in> set ''0123456789abcdefABCDEF''))"
proof -
  have d: "list_all is_digit segment \<longleftrightarrow> (\<forall>c \<in> set segment. c \<in> set ''0123456789'')"
    by (simp add: list_all_iff is_digit_def)
  have x: "list_all is_hex segment \<longleftrightarrow>
      (\<forall>c \<in> set segment. c \<in> set ''0123456789abcdefABCDEF'')"
    unfolding list_all_iff is_hex_def by (rule ball_cong) auto
  have u: "list_all is_hex_or_hyphen segment \<longleftrightarrow>
      (\<forall>c \<in> set segment. c \<in> set ''0123456789abcdefABCDEF'' \<or> c = CHR ''-'')"
    unfolding list_all_iff is_hex_or_hyphen_def is_hex_def by (rule ball_cong) auto
  have n: "segment \<noteq> [] \<longleftrightarrow> length segment \<ge> 1"
    by (cases segment) auto
  show ?thesis
    unfolding isDynamicSegment_def d x u n by auto
qed

theorem isDynamicSegment_characterisation_witness:
  "isDynamicSegment ''123'' \<and> isDynamicSegment ''deadBEEF''
   \<and> isDynamicSegment ''123e4567-e89b-12d3-a456-426614174000''
   \<and> \<not> isDynamicSegment ''dashboard'' \<and> \<not> isDynamicSegment []"
  using isDynamicSegment_characterisation [of "''123''"]
    isDynamicSegment_characterisation [of "''deadBEEF''"]
    isDynamicSegment_characterisation [of "''123e4567-e89b-12d3-a456-426614174000''"]
    isDynamicSegment_characterisation [of "''dashboard''"]
    isDynamicSegment_characterisation [of "[]"]
  by simp

section \<open>The walker only appends\<close>

lemma push_truthy_mono: "set acc \<subseteq> set (push_truthy d acc)"
  by (auto simp: push_truthy_def split: option.splits)

lemma push_exact_mono: "set acc \<subseteq> set (push_exact d acc)"
  by (auto simp: push_exact_def split: option.splits)

lemma push_truthy_mem: "d = Some text \<Longrightarrow> text \<noteq> [] \<Longrightarrow> text \<in> set (push_truthy d acc)"
  by (simp add: push_truthy_def)

lemma walk_no_match:
  "matchFolder fs dir cur (foldersToTry seg) = None \<Longrightarrow>
   walk fs dir cur (seg # rest) acc =
     (if rest = [] then push_truthy (loadFile fs dir (path_join [cur, seg @ ''.md''])) acc
      else acc)"
  by simp

lemma walk_empty_folder:
  "matchFolder fs dir cur (foldersToTry seg) = Some [] \<Longrightarrow>
   walk fs dir cur (seg # rest) acc =
     (if rest = [] then push_truthy (loadFile fs dir (path_join [cur, seg @ ''.md''])) acc
      else acc)"
  by simp

lemma walk_match:
  "matchFolder fs dir cur (foldersToTry seg) = Some folder \<Longrightarrow> folder \<noteq> [] \<Longrightarrow>
   walk fs dir cur (seg # rest) acc =
     walk fs dir (path_join [cur, folder]) rest
       (if rest = [] then
          push_truthy (loadFile fs dir (path_join [path_join [cur, folder], ''index.md'']))
            (push_truthy (loadFile fs dir (path_join [path_join [cur, folder], ''_base.md''])) acc)
        else push_truthy (loadFile fs dir (path_join [path_join [cur, folder], ''_base.md''])) acc)"
  by (simp add: Let_def)

declare walk.simps(2) [simp del]

lemma walk_mono: "set acc \<subseteq> set (walk fs dir cur segs acc)"
proof (induction segs arbitrary: cur acc)
  case Nil
  show ?case by simp
next
  case (Cons seg rest)
  show ?case
  proof (cases "matchFolder fs dir cur (foldersToTry seg)")
    case None
    show ?thesis
      unfolding walk_no_match [OF None] by (simp add: push_truthy_mono)
  next
    case (Some folder)
    show ?thesis
    proof (cases "folder = []")
      case True
      with Some have e: "matchFolder fs dir cur (foldersToTry seg) = Some []" by simp
      show ?thesis
        unfolding walk_empty_folder [OF e] by (simp add: push_truthy_mono)
    next
      case False
      let ?base = "push_truthy (loadFile fs dir (path_join [path_join [cur, folder], ''_base.md''])) acc"
      let ?idx = "push_truthy (loadFile fs dir (path_join [path_join [cur, folder], ''index.md''])) ?base"
      have a: "set acc \<subseteq> set ?base" by (rule push_truthy_mono)
      have b: "set ?base \<subseteq> set ?idx" by (rule push_truthy_mono)
      have c: "set acc \<subseteq> set (if rest = [] then ?idx else ?base)"
      proof (cases "rest = []")
        case True
        then show ?thesis using a b by auto
      next
        case False
        then show ?thesis using a by simp
      qed
      have d: "set (if rest = [] then ?idx else ?base)
          \<subseteq> set (walk fs dir (path_join [cur, folder]) rest (if rest = [] then ?idx else ?base))"
        by (rule Cons.IH)
      show ?thesis
        unfolding walk_match [OF Some False] using c d by (rule order_trans)
    qed
  qed
qed

lemma walk_index:
  "descend fs dir cur segs = Some leaf \<Longrightarrow> segs \<noteq> [] \<Longrightarrow>
   loadFile fs dir (path_join [leaf, ''index.md'']) = Some text \<Longrightarrow> text \<noteq> [] \<Longrightarrow>
   text \<in> set (walk fs dir cur segs acc)"
proof (induction segs arbitrary: cur acc)
  case Nil
  then show ?case by simp
next
  case (Cons seg rest)
  from Cons.prems(1) obtain folder where
    m: "matchFolder fs dir cur (foldersToTry seg) = Some folder" and
    f: "folder \<noteq> []" and
    d: "descend fs dir (path_join [cur, folder]) rest = Some leaf"
    by (auto split: option.splits if_splits)
  show ?case
  proof (cases "rest = []")
    case True
    with d have leaf: "leaf = path_join [cur, folder]" by simp
    show ?thesis
      unfolding walk_match [OF m f] using True leaf Cons.prems(3,4)
      by (simp add: push_truthy_mem)
  next
    case False
    show ?thesis
      unfolding walk_match [OF m f]
      using Cons.IH [OF d False Cons.prems(3) Cons.prems(4)] by blast
  qed
qed

lemma loadConfigs_dir: "instructionsDir (snd (loadConfigs J fs r)) = instructionsDir r"
  by (simp add: loadConfigs_def Let_def split: option.splits sum.splits)

lemma loadConfigs_cache: "cache (snd (loadConfigs J fs r)) = cache r"
  by (simp add: loadConfigs_def Let_def split: option.splits sum.splits)

lemma findInstructionSet_dir:
  "instructionsDir (snd (findInstructionSet J fs r h)) = instructionsDir r"
  using loadConfigs_dir [of J fs r]
  by (cases "loadConfigs J fs r") (auto simp: findInstructionSet_def split: sum.splits)

lemma findInstructionSet_cache:
  "cache (snd (findInstructionSet J fs r h)) = cache r"
  using loadConfigs_cache [of J fs r]
  by (cases "loadConfigs J fs r") (auto simp: findInstructionSet_def split: sum.splits)

lemma resolve_multi_found:
  assumes "cache r url = None" and "parseURL url = Some (hostname, pathname)"
    and "fst (findInstructionSet JSON_parse fs r hostname) = Inr (Some basePath)"
    and "basePath \<noteq> []"
  shows "fst (resolve_multi parseURL JSON_parse fs r url) =
           Inr (merge (collect_multi fs (instructionsDir r) basePath pathname))"
proof -
  obtain r' where f: "findInstructionSet JSON_parse fs r hostname = (Inr (Some basePath), r')"
    using assms(3) by (cases "findInstructionSet JSON_parse fs r hostname") auto
  have "instructionsDir r' = instructionsDir r"
    using findInstructionSet_dir [of JSON_parse fs r hostname] f by simp
  then show ?thesis
    using assms(1,2,4) f by (simp add: resolve_multi_def Let_def)
qed

section \<open>The index document in the multi-tenant variant\<close>

text \<open>
  Claim C1, as amended. In the multi-tenant variant, as in the single-tenant one, when the
  last path segment matches a folder the resolver loads \<open>index.md\<close> from the directory it
  has just advanced into, and appends its text when that is not empty: whenever every
  segment of the path matches a folder and the directory reached holds a non-empty
  \<open>index.md\<close>, that text is one of the documents of the resolver's output.
\<close>

theorem multi_tenant_loads_index:
  assumes "cache r url = None" and "parseURL url = Some (hostname, pathname)"
    and "fst (findInstructionSet JSON_parse fs r hostname) = Inr (Some basePath)"
    and "basePath \<noteq> []"
    and "segments_of pathname \<noteq> []"
    and "descend fs (instructionsDir r) basePath (segments_of pathname) = Some leaf"
    and "loadFile fs (instructionsDir r) (path_join [leaf, ''index.md'']) = Some text"
    and "text \<noteq> []"
  shows "\<exists>docs. fst (resolve_multi parseURL JSON_parse fs r url)
                  = Inr (Some (join_with separator docs)) \<and> text \<in> set docs"
proof -
  let ?docs = "collect_multi fs (instructionsDir r) basePath pathname"
  have "text \<in> set (walk fs (instructionsDir r) basePath (segments_of pathname)
      (push_truthy (loadFile fs (instructionsDir r) (path_join [basePath, ''_base.md''])) []))"
    using walk_index [OF assms(6) assms(5) assms(7) assms(8)] .
  then have mem: "text \<in> set ?docs"
    using push_exact_mono by (auto simp: collect_multi_def Let_def)
  then have "?docs \<noteq> []" by auto
  then have "merge ?docs = Some (join_with separator ?docs)" by (simp add: merge_def)
  moreover have "fst (resolve_multi parseURL JSON_parse fs r url) = Inr (merge ?docs)"
    using assms(1-4) by (rule resolve_multi_found)
  ultimately show ?thesis using mem by auto
qed

theorem multi_tenant_loads_index_witness:
  "cache (new_mt_resolver ''/plugin'') ''https://semrush.com/seo'' = None
   \<and> demo_parseURL ''https://semrush.com/seo'' = Some (''semrush.com'', ''/seo'')
   \<and> fst (findInstructionSet demo_JSON_parse demo_store (new_mt_resolver ''/plugin'') ''semrush.com'')
       = Inr (Some ''semrush'')
   \<and> descend demo_store (instructionsDir (new_mt_resolver ''/plugin'')) ''semrush''
         (segments_of ''/seo'') = Some ''semrush/seo''
   \<and> loadFile demo_store (instructionsDir (new_mt_resolver ''/plugin''))
         (path_join [''semrush/seo'', ''index.md'']) = Some ''Index''
   \<and> (\<exists>docs. fst (resolve_multi demo_parseURL demo_JSON_parse demo_store
                     (new_mt_resolver ''/plugin'') ''https://semrush.com/seo'')
                  = Inr (Some (join_with separator docs)) \<and> ''Index'' \<in> set docs)"
proof -
  have h1: "cache (new_mt_resolver ''/plugin'') ''https://semrush.com/seo'' = None"
    by (simp add: new_mt_resolver_def)
  have h2: "demo_parseURL ''https://semrush.com/seo'' = Some (''semrush.com'', ''/seo'')"
    by code_simp
  have h3: "fst (findInstructionSet demo_JSON_parse demo_store (new_mt_resolver ''/plugin'')
      ''semrush.com'') = Inr (Some ''semrush'')"
    by code_simp
  have h4: "''semrush'' \<noteq> []" by simp
  have h5: "segments_of ''/seo'' \<noteq> []" by code_simp
  have h6: "descend demo_store (instructionsDir (new_mt_resolver ''/plugin'')) ''semrush''
      (segments_of ''/seo'') = Some ''semrush/seo''"
    by code_simp
  have h7: "loadFile demo_store (instructionsDir (new_mt_resolver ''/plugin''))
      (path_join [''semrush/seo'', ''index.md'']) = Some ''Index''"
    by code_simp
  have h8: "''Index'' \<noteq> []" by simp
  have c: "\<exists>docs. fst (resolve_multi demo_parseURL demo_JSON_parse demo_store
                     (new_mt_resolver ''/plugin'') ''https://semrush.com/seo'')
                  = Inr (Some (join_with separator docs)) \<and> ''Index'' \<in> set docs"
    using h1 h2 h3 h4 h5 h6 h7 h8 by (rule multi_tenant_loads_index)
  show ?thesis by (intro conjI h1 h2 h3 h6 h7 c)
qed


text \<open>
  The claim as it was stated (the multi-tenant variant never loads \<open>index.md\<close>) fails on
  the example store: for \<open>https://semrush.com/seo\<close> the output ends with the text of
  \<open>semrush/seo/index.md\<close>.
\<close>

theorem multi_tenant_index_counterexample:
  "demo_store ''/plugin/instructions/semrush/seo/index.md'' = Some (File ''Index'')
   \<and> fst (resolve_multi demo_parseURL demo_JSON_parse demo_store (new_mt_resolver ''/plugin'')
          ''https://semrush.com/seo'')
       = Inr (Some (''Semrush'' @ separator @ ''SEO'' @ separator @ ''Index''))"
proof -
  have stored: "demo_store ''/plugin/instructions/semrush/seo/index.md'' = Some (File ''Index'')"
    by code_simp
  have shown: "fst (resolve_multi demo_parseURL demo_JSON_parse demo_store
      (new_mt_resolver ''/plugin'') ''https://semrush.com/seo'')
       = Inr (Some (''Semrush'' @ separator @ ''SEO'' @ separator @ ''Index''))"
    by code_simp
  show ?thesis by (intro conjI stored shown)
qed

section \<open>What loadConfigs registers\<close>

lemma map_set_keys: "fst ` set (map_set acc k v) = insert k (fst ` set acc)"
proof (induction acc)
  case Nil
  show ?case by simp
next
  case (Cons kv acc)
  obtain k' v' where kv: "kv = (k', v')" by (cases kv)
  show ?case using Cons.IH unfolding kv by (cases "k' = k") auto
qed

lemma map_set_values:
  "(n, c) \<in> set (map_set acc k v) \<Longrightarrow> (n, c) \<in> set acc \<or> (n = k \<and> c = v)"
proof (induction acc)
  case Nil
  then show ?case by simp
next
  case (Cons kv acc)
  obtain k' v' where kv: "kv = (k', v')" by (cases kv)
  show ?case using Cons unfolding kv by (cases "k' = k") auto
qed

lemma load_entries_keys:
  "fst ` set (load_entries J fs dir es acc) =
     fst ` set acc \<union> {n. \<exists>e \<in> set es. fst e = n \<and> config_of_entry J fs dir e \<noteq> None}"
proof (induction es arbitrary: acc)
  case Nil
  show ?case by simp
next
  case (Cons e es)
  show ?case
  proof (cases "config_of_entry J fs dir e")
    case None
    then show ?thesis using Cons.IH [of acc] by auto
  next
    case (Some config)
    then show ?thesis
      using Cons.IH [of "map_set acc (fst e) config"] by (auto simp: map_set_keys)
  qed
qed

lemma load_entries_values:
  "(n, c) \<in> set (load_entries J fs dir es acc) \<Longrightarrow>
     (n, c) \<in> set acc \<or> (\<exists>e \<in> set es. fst e = n \<and> config_of_entry J fs dir e = Some c)"
proof (induction es arbitrary: acc)
  case Nil
  then show ?case by simp
next
  case (Cons e es)
  show ?case
  proof (cases "config_of_entry J fs dir e")
    case None
    then show ?thesis using Cons.IH [of acc] Cons.prems by auto
  next
    case (Some config)
    with Cons.prems have "(n, c) \<in> set (load_entries J fs dir es (map_set acc (fst e) config))"
      by simp
    from Cons.IH [OF this] show ?thesis
    proof
      assume "(n, c) \<in> set (map_set acc (fst e) config)"
      from map_set_values [OF this] show ?thesis using Some by auto
    next
      assume "\<exists>e \<in> set es. fst e = n \<and> config_of_entry J fs dir e = Some c"
      then show ?thesis by auto
    qed
  qed
qed

lemma isArray_iff: "isArray d \<longleftrightarrow> (\<exists>ds. d = Some (JArr ds))"
  by (cases d rule: isArray.cases) simp_all

lemma accepted_iff:
  "(case domains_of config of
      Inl e \<Rightarrow> None
    | Inr d \<Rightarrow> if truthy d \<and> isArray d then Some config else None) = Some c
   \<longleftrightarrow> c = config \<and>
       (\<exists>members ds. config = JObj members \<and> map_of members ''domains'' = Some (JArr ds))"
proof (cases config)
  case (JObj members)
  show ?thesis unfolding JObj by (auto simp: isArray_iff)
qed (simp_all)

lemma config_of_entry_iff:
  "config_of_entry J fs dir (name, isDir) = Some config \<longleftrightarrow>
     isDir \<and> (\<exists>text members ds.
        fs (path_join [dir, name, ''_config.json'']) = Some (File text) \<and>
        J text = Some config \<and> config = JObj members \<and>
        map_of members ''domains'' = Some (JArr ds))"
proof (cases "fs (path_join [dir, name, ''_config.json''])")
  case None
  then show ?thesis by (simp add: config_of_entry_def existsSync_def)
next
  case (Some nd)
  show ?thesis
  proof (cases nd)
    case (File content)
    show ?thesis
    proof (cases "J content")
      case None
      then show ?thesis using Some File
        by (simp add: config_of_entry_def existsSync_def readFileSync_def)
    next
      case (Some parsed)
      have "config_of_entry J fs dir (name, isDir) =
          (if isDir then
             (case domains_of parsed of
                Inl e \<Rightarrow> None
              | Inr d \<Rightarrow> if truthy d \<and> isArray d then Some parsed else None)
           else None)"
        using \<open>fs (path_join [dir, name, ''_config.json'']) = Some nd\<close> File Some
        by (simp add: config_of_entry_def existsSync_def readFileSync_def)
      then show ?thesis
        using \<open>fs (path_join [dir, name, ''_config.json'']) = Some nd\<close> File Some
          accepted_iff [of parsed config]
        by (cases isDir) auto
    qed
  next
    case (Directory es)
    with Some show ?thesis
      by (simp add: config_of_entry_def existsSync_def readFileSync_def)
  next
    case Unreadable
    with Some show ?thesis
      by (simp add: config_of_entry_def existsSync_def readFileSync_def)
  qed
qed

text \<open>
  Claim C2, as amended. When the instructions directory can be listed, \<open>loadConfigs\<close>
  raises no error and registers a top-level directory if and only if its configuration file
  can be read and parses to an object whose \<open>domains\<close> member is an array, the empty array
  included. A directory whose configuration is missing, unreadable, unparseable, without a
  \<open>domains\<close> member, or with one that is not an array, is skipped. What is registered for
  a directory is the whole parsed configuration of that directory.
\<close>

theorem loadConfigs_registers:
  assumes "configCache r = None" and "fs (instructionsDir r) = Some (Directory entries)"
  shows "\<exists>loaded. loadConfigs JSON_parse fs r = (Inr loaded, r\<lparr>configCache := Some loaded\<rparr>)
      \<and> (\<forall>name. name \<in> fst ` set loaded \<longleftrightarrow>
            (name, True) \<in> set entries \<and>
            (\<exists>text members ds.
               fs (path_join [instructionsDir r, name, ''_config.json'']) = Some (File text) \<and>
               JSON_parse text = Some (JObj members) \<and>
               map_of members ''domains'' = Some (JArr ds)))
      \<and> (\<forall>name config. (name, config) \<in> set loaded \<longrightarrow>
            (\<exists>text. fs (path_join [instructionsDir r, name, ''_config.json'']) = Some (File text) \<and>
               JSON_parse text = Some config))"
proof -
  let ?dir = "instructionsDir r"
  let ?loaded = "load_entries JSON_parse fs ?dir entries []"
  have run: "loadConfigs JSON_parse fs r = (Inr ?loaded, r\<lparr>configCache := Some ?loaded\<rparr>)"
    using assms by (simp add: loadConfigs_def existsSync_def readdirSync_def Let_def)
  have keys: "name \<in> fst ` set ?loaded \<longleftrightarrow>
      (name, True) \<in> set entries \<and>
      (\<exists>text members ds.
         fs (path_join [?dir, name, ''_config.json'']) = Some (File text) \<and>
         JSON_parse text = Some (JObj members) \<and>
         map_of members ''domains'' = Some (JArr ds))" for name
  proof
    assume "name \<in> fst ` set ?loaded"
    then obtain e where e: "e \<in> set entries" "fst e = name"
      "config_of_entry JSON_parse fs ?dir e \<noteq> None"
      unfolding load_entries_keys by auto
    obtain isDir where "e = (name, isDir)" using e(2) by (cases e) auto
    with e(1,3) config_of_entry_iff [of JSON_parse fs ?dir name isDir]
    show "(name, True) \<in> set entries \<and>
      (\<exists>text members ds.
         fs (path_join [?dir, name, ''_config.json'']) = Some (File text) \<and>
         JSON_parse text = Some (JObj members) \<and>
         map_of members ''domains'' = Some (JArr ds))"
      by auto
  next
    assume a: "(name, True) \<in> set entries \<and>
      (\<exists>text members ds.
         fs (path_join [?dir, name, ''_config.json'']) = Some (File text) \<and>
         JSON_parse text = Some (JObj members) \<and>
         map_of members ''domains'' = Some (JArr ds))"
    then obtain members where "config_of_entry JSON_parse fs ?dir (name, True) = Some (JObj members)"
      using config_of_entry_iff [of JSON_parse fs ?dir name True] by blast
    with a show "name \<in> fst ` set ?loaded"
      unfolding load_entries_keys by force
  qed
  have vals: "\<exists>text. fs (path_join [?dir, name, ''_config.json'']) = Some (File text) \<and>
      JSON_parse text = Some config" if "(name, config) \<in> set ?loaded" for name config
  proof -
    from load_entries_values [OF that] obtain e where
      e: "e \<in> set entries" "fst e = name" "config_of_entry JSON_parse fs ?dir e = Some config"
      by auto
    obtain isDir where "e = (name, isDir)" using e(2) by (cases e) auto
    with e(3) config_of_entry_iff [of JSON_parse fs ?dir name isDir config]
    show ?thesis by auto
  qed
  from run keys vals show ?thesis by blast
qed

theorem loadConfigs_registers_witness:
  "configCache (new_mt_resolver ''/plugin'') = None
   \<and> demo_store (instructionsDir (new_mt_resolver ''/plugin''))
       = Some (Directory [(''semrush'', True)])
   \<and> (\<exists>loaded. loadConfigs demo_JSON_parse demo_store (new_mt_resolver ''/plugin'')
           = (Inr loaded, (new_mt_resolver ''/plugin'')\<lparr>configCache := Some loaded\<rparr>)
      \<and> (\<forall>name. name \<in> fst ` set loaded \<longleftrightarrow>
            (name, True) \<in> set [(''semrush'', True)] \<and>
            (\<exists>text members ds.
               demo_store (path_join [instructionsDir (new_mt_resolver ''/plugin''), name,
                   ''_config.json'']) = Some (File text) \<and>
               demo_JSON_parse text = Some (JObj members) \<and>
               map_of members ''domains'' = Some (JArr ds)))
      \<and> (\<forall>name config. (name, config) \<in> set loaded \<longrightarrow>
            (\<exists>text. demo_store (path_join [instructionsDir (new_mt_resolver ''/plugin''), name,
                   ''_config.json'']) = Some (File text) \<and>
               demo_JSON_parse text = Some config)))"
proof -
  have h1: "configCache (new_mt_resolver ''/plugin'') = None"
    by (simp add: new_mt_resolver_def)
  have h2: "demo_store (instructionsDir (new_mt_resolver ''/plugin''))
       = Some (Directory [(''semrush'', True)])"
    by code_simp
  note c = loadConfigs_registers [where r = "new_mt_resolver ''/plugin''" and fs = demo_store
      and JSON_parse = demo_JSON_parse and entries = "[(''semrush'', True)]", OF h1 h2]
  show ?thesis
    by (intro conjI h1 h2 c)
qed

text \<open>
  The claim as it was stated (a directory whose configuration names an empty list is
  skipped) fails: a configuration \<open>{"domains": []}\<close> is registered.
\<close>

theorem loadConfigs_empty_list_counterexample:
  "fst (loadConfigs demo_JSON_parse empty_domains_store (new_mt_resolver ''/plugin''))
     = Inr [(''semrush'', JObj [(''domains'', JArr [])])]"
  by code_simp

section \<open>Caching\<close>

text \<open>
  A call that returns leaves its result in the cache under the raw URL, and the next call
  gives the same result whatever the store then holds: it reads nothing from it.
\<close>

lemma resolve_single_cached:
  assumes "resolve_single parseURL fs r url = (result, r')"
  shows "cache r' url = Some result \<and> resolve_single parseURL fs' r' url = (result, r')"
proof (cases "cache r url")
  case None
  with assms have "r' = r\<lparr>cache := (cache r)(url \<mapsto> result)\<rparr>"
    by (auto simp: resolve_single_def Let_def)
  then show ?thesis by (simp add: resolve_single_def)
next
  case (Some hit)
  with assms have "r' = r" "result = hit" by (auto simp: resolve_single_def)
  with Some show ?thesis by (simp add: resolve_single_def)
qed

lemma resolve_multi_cached:
  assumes "resolve_multi parseURL JSON_parse fs r url = (Inr result, r')"
  shows "cache r' url = Some result
    \<and> resolve_multi parseURL JSON_parse fs' r' url = (Inr result, r')"
proof (cases "cache r url")
  case None
  have "cache r' url = Some result"
    using assms None
    by (auto simp: resolve_multi_def Let_def split: option.splits prod.splits sum.splits if_splits)
  then show ?thesis by (simp add: resolve_multi_def)
next
  case (Some hit)
  with assms have "r' = r" "result = hit" by (auto simp: resolve_multi_def)
  with Some show ?thesis by (simp add: resolve_multi_def)
qed

text \<open>
  Claim C4 (two calls of \<open>resolve\<close> in succession return the same text or null, and the
  first leaves a cache entry under the raw URL). The multi-tenant variant breaks this on a
  store whose instructions directory exists and cannot be listed: \<open>loadConfigs\<close> has set
  the config cache to an empty map before \<open>readdirSync\<close> throws, so the first call throws
  and leaves no entry for the URL, and the second call on the same store returns null.
\<close>

theorem resolve_twice_unreadable_directory:
  "fst (resolve_multi demo_parseURL demo_JSON_parse unreadable_store
          (new_mt_resolver ''/plugin'') ''https://semrush.com/'') = Inl FsError
   \<and> cache (snd (resolve_multi demo_parseURL demo_JSON_parse unreadable_store
          (new_mt_resolver ''/plugin'') ''https://semrush.com/'')) ''https://semrush.com/'' = None
   \<and> fst (resolve_multi demo_parseURL demo_JSON_parse unreadable_store
          (snd (resolve_multi demo_parseURL demo_JSON_parse unreadable_store
                  (new_mt_resolver ''/plugin'') ''https://semrush.com/''))
          ''https://semrush.com/'') = Inr None"
proof -
  have first: "fst (resolve_multi demo_parseURL demo_JSON_parse unreadable_store
          (new_mt_resolver ''/plugin'') ''https://semrush.com/'') = Inl FsError"
    by code_simp
  have entry: "cache (snd (resolve_multi demo_parseURL demo_JSON_parse unreadable_store
          (new_mt_resolver ''/plugin'') ''https://semrush.com/'')) ''https://semrush.com/'' = None"
    by code_simp
  have second: "fst (resolve_multi demo_parseURL demo_JSON_parse unreadable_store
          (snd (resolve_multi demo_parseURL demo_JSON_parse unreadable_store
                  (new_mt_resolver ''/plugin'') ''https://semrush.com/''))
          ''https://semrush.com/'') = Inr None"
    by code_simp
  show ?thesis by (intro conjI first entry second)
qed

text \<open>
  A configuration whose list holds a value that is not a string is registered, and
  \<open>resolve\<close> throws when \<open>matchDomain\<close> reaches that value.
\<close>

lemma resolve_number_pattern:
  "fst (resolve_multi demo_parseURL demo_JSON_parse number_pattern_store
          (new_mt_resolver ''/plugin'') ''https://semrush.com/'') = Inl TypeError"
  by code_simp

section \<open>Duplicates\<close>

text \<open>
  Step 3 of \<open>resolve\<close> appends the exact file only when its text differs from every
  document gathered so far.
\<close>

lemma push_exact_known: "text \<in> set instructions \<Longrightarrow> push_exact (Some text) instructions = instructions"
  by (simp add: push_exact_def)

lemma push_exact_new:
  "push_exact exactFile instructions \<noteq> instructions \<Longrightarrow>
     \<exists>text. exactFile = Some text \<and> text \<notin> set instructions
       \<and> push_exact exactFile instructions = instructions @ [text]"
  by (auto simp: push_exact_def split: option.splits if_splits)

text \<open>
  Claim C5 (no store file gives its document to the output more than once). The loop of the
  walker breaks this when the last segment is \<open>_base\<close> and matches no folder: the page
  file it then loads, \<open>_base.md\<close> of the current directory, is the base document it has
  already appended, and the loop appends it again without the comparison that step 3 makes.
  On the example store, \<open>https://semrush.com/seo/_base\<close> yields the text of
  \<open>semrush/seo/_base.md\<close> twice.
\<close>

theorem base_document_twice:
  "collect_multi demo_store ''/plugin/instructions'' ''semrush'' ''/seo/_base''
     = [''Semrush'', ''SEO'', ''SEO'']
   \<and> fst (resolve_multi demo_parseURL demo_JSON_parse demo_store (new_mt_resolver ''/plugin'')
          ''https://semrush.com/seo/_base'')
       = Inr (Some (''Semrush'' @ separator @ ''SEO'' @ separator @ ''SEO''))"
proof -
  have docs: "collect_multi demo_store ''/plugin/instructions'' ''semrush'' ''/seo/_base''
     = [''Semrush'', ''SEO'', ''SEO'']"
    by code_simp
  have joined: "fst (resolve_multi demo_parseURL demo_JSON_parse demo_store
      (new_mt_resolver ''/plugin'') ''https://semrush.com/seo/_base'')
       = Inr (Some (''Semrush'' @ separator @ ''SEO'' @ separator @ ''SEO''))"
    by code_simp
  show ?thesis by (intro conjI docs joined)
qed

section \<open>clearCache\<close>



text \<open>
  Scenario D on the example store: the URL is resolved, the root base document is rewritten;
  without \<open>clearCache\<close> the old text comes back, after \<open>clearCache\<close> the new one does.
\<close>

lemma scenario_D:
  "fst (resolve_multi demo_parseURL demo_JSON_parse demo_store (new_mt_resolver ''/plugin'')
          ''https://semrush.com/'') = Inr (Some ''Semrush'')
   \<and> fst (resolve_multi demo_parseURL demo_JSON_parse updated_store
          (snd (resolve_multi demo_parseURL demo_JSON_parse demo_store
             (new_mt_resolver ''/plugin'') ''https://semrush.com/''))
          ''https://semrush.com/'') = Inr (Some ''Semrush'')
   \<and> fst (resolve_multi demo_parseURL demo_JSON_parse updated_store
          (clearCache_multi (snd (resolve_multi demo_parseURL demo_JSON_parse demo_store
             (new_mt_resolver ''/plugin'') ''https://semrush.com/'')))
          ''https://semrush.com/'') = Inr (Some ''Semrush, revised'')"
proof -
  have a: "fst (resolve_multi demo_parseURL demo_JSON_parse demo_store (new_mt_resolver ''/plugin'')
          ''https://semrush.com/'') = Inr (Some ''Semrush'')"
    by code_simp
  have b: "fst (resolve_multi demo_parseURL demo_JSON_parse updated_store
          (snd (resolve_multi demo_parseURL demo_JSON_parse demo_store
             (new_mt_resolver ''/plugin'') ''https://semrush.com/''))
          ''https://semrush.com/'') = Inr (Some ''Semrush'')"
    by code_simp
  have c: "fst (resolve_multi demo_parseURL demo_JSON_parse updated_store
          (clearCache_multi (snd (resolve_multi demo_parseURL demo_JSON_parse demo_store
             (new_mt_resolver ''/plugin'') ''https://semrush.com/'')))
          ''https://semrush.com/'') = Inr (Some ''Semrush, revised'')"
    by code_simp
  show ?thesis by (intro conjI a b c)
qed

section \<open>Trimmed documents\<close>

lemma last_dropWhile: "dropWhile P xs \<noteq> [] \<Longrightarrow> last (dropWhile P xs) = last xs"
  by (induction xs) (auto split: if_splits)

lemma trim_well_trimmed: "trim s \<noteq> [] \<Longrightarrow> well_trimmed (trim s)"
proof -
  assume ne: "trim s \<noteq> []"
  let ?u = "dropWhile is_space s"
  let ?v = "dropWhile is_space (rev ?u)"
  have t: "trim s = rev ?v" by (simp add: trim_def)
  from ne t have v: "?v \<noteq> []" by simp
  have u: "?u \<noteq> []"
  proof
    assume e: "?u = []"
    have "?v = []" unfolding e by simp
    with v show False by blast
  qed
  have "last (trim s) = hd ?v" using v by (simp add: t last_rev)
  then have l: "\<not> is_space (last (trim s))" using hd_dropWhile [OF v] by simp
  have "hd (trim s) = last ?v" using v by (simp add: t hd_rev)
  also have "\<dots> = last (rev ?u)" using v by (rule last_dropWhile)
  also have "\<dots> = hd ?u" using u by (simp add: last_rev)
  finally have h: "\<not> is_space (hd (trim s))" using hd_dropWhile [OF u] by simp
  from ne h l show ?thesis by (simp add: well_trimmed_def)
qed

lemma loadFile_trimmed: "loadFile fs dir p = Some t \<Longrightarrow> t \<noteq> [] \<Longrightarrow> well_trimmed t"
  using trim_well_trimmed
  by (auto simp: loadFile_def Let_def split: if_splits sum.splits)

lemma push_truthy_trimmed:
  "list_all well_trimmed acc \<Longrightarrow> list_all well_trimmed (push_truthy (loadFile fs dir p) acc)"
  by (cases "loadFile fs dir p") (auto simp: push_truthy_def loadFile_trimmed)

lemma push_exact_trimmed:
  "list_all well_trimmed acc \<Longrightarrow> list_all well_trimmed (push_exact (loadFile fs dir p) acc)"
  by (cases "loadFile fs dir p") (auto simp: push_exact_def loadFile_trimmed)

lemma walk_trimmed:
  "list_all well_trimmed acc \<Longrightarrow> list_all well_trimmed (walk fs dir cur segs acc)"
proof (induction segs arbitrary: cur acc)
  case Nil
  then show ?case by simp
next
  case (Cons seg rest)
  show ?case
  proof (cases "matchFolder fs dir cur (foldersToTry seg)")
    case None
    show ?thesis
      unfolding walk_no_match [OF None] using Cons.prems by (simp add: push_truthy_trimmed)
  next
    case (Some folder)
    show ?thesis
    proof (cases "folder = []")
      case True
      with Some have e: "matchFolder fs dir cur (foldersToTry seg) = Some []" by simp
      show ?thesis
        unfolding walk_empty_folder [OF e] using Cons.prems by (simp add: push_truthy_trimmed)
    next
      case False
      show ?thesis
        unfolding walk_match [OF Some False]
        by (rule Cons.IH) (simp add: push_truthy_trimmed Cons.prems)
    qed
  qed
qed

lemma collect_multi_trimmed: "list_all well_trimmed (collect_multi fs dir basePath pathname)"
proof -
  have "list_all well_trimmed (push_truthy (loadFile fs dir (path_join [basePath, ''_base.md''])) [])"
    by (rule push_truthy_trimmed) simp
  then have "list_all well_trimmed (walk fs dir basePath (segments_of pathname)
      (push_truthy (loadFile fs dir (path_join [basePath, ''_base.md''])) []))"
    by (rule walk_trimmed)
  then show ?thesis
    by (cases "segments_of pathname = []") (simp_all add: collect_multi_def Let_def push_exact_trimmed)
qed

lemma collect_single_trimmed: "list_all well_trimmed (collect_single fs dir pathname)"
proof -
  have "list_all well_trimmed (push_truthy (loadFile fs dir ''_base.md'') [])"
    by (rule push_truthy_trimmed) simp
  then have "list_all well_trimmed (walk fs dir [] (segments_of pathname)
      (push_truthy (loadFile fs dir ''_base.md'') []))"
    by (rule walk_trimmed)
  then show ?thesis
    by (cases "segments_of pathname = []") (simp_all add: collect_single_def Let_def push_exact_trimmed)
qed

lemma join_with_nonempty:
  "docs \<noteq> [] \<Longrightarrow> list_all (\<lambda>d. d \<noteq> []) docs \<Longrightarrow> join_with sep docs \<noteq> []"
  by (induction sep docs rule: join_with.induct) auto

lemma merge_nonempty: "list_all well_trimmed docs \<Longrightarrow> merge docs \<noteq> Some []"
proof -
  assume a: "list_all well_trimmed docs"
  then have "list_all (\<lambda>d. d \<noteq> []) docs"
    by (simp add: list_all_iff well_trimmed_def)
  then show ?thesis
    using join_with_nonempty [of docs separator] by (auto simp: merge_def)
qed

section \<open>The cache of a reachable resolver\<close>

lemma resolve_multi_hit:
  "cache r url = Some hit \<Longrightarrow> resolve_multi parseURL JSON_parse fs r url = (Inr hit, r)"
  by (simp add: resolve_multi_def)

lemma resolve_multi_unparsed:
  "cache r url = None \<Longrightarrow> parseURL url = None \<Longrightarrow>
   resolve_multi parseURL JSON_parse fs r url = (Inr None, r\<lparr>cache := (cache r)(url \<mapsto> None)\<rparr>)"
  by (simp add: resolve_multi_def)

lemma resolve_multi_parsed:
  assumes "cache r url = None" and "parseURL url = Some (hostname, pathname)"
  shows "\<exists>r'. cache r' = cache r \<and> instructionsDir r' = instructionsDir r \<and>
     ((\<exists>e. resolve_multi parseURL JSON_parse fs r url = (Inl e, r'))
      \<or> resolve_multi parseURL JSON_parse fs r url
           = (Inr None, r'\<lparr>cache := (cache r')(url \<mapsto> None)\<rparr>)
      \<or> (\<exists>basePath. resolve_multi parseURL JSON_parse fs r url
           = (Inr (merge (collect_multi fs (instructionsDir r) basePath pathname)),
              r'\<lparr>cache := (cache r')(url \<mapsto>
                  merge (collect_multi fs (instructionsDir r) basePath pathname))\<rparr>)))"
proof -
  obtain outcome r' where f: "findInstructionSet JSON_parse fs r hostname = (outcome, r')"
    by (cases "findInstructionSet JSON_parse fs r hostname")
  have c: "cache r' = cache r" using findInstructionSet_cache [of JSON_parse fs r hostname] f by simp
  have d: "instructionsDir r' = instructionsDir r"
    using findInstructionSet_dir [of JSON_parse fs r hostname] f by simp
  show ?thesis
  proof (cases outcome)
    case (Inl e)
    with assms f have "resolve_multi parseURL JSON_parse fs r url = (Inl e, r')"
      by (simp add: resolve_multi_def)
    with c d show ?thesis by blast
  next
    case (Inr found)
    show ?thesis
    proof (cases found)
      case None
      with Inr assms f have "resolve_multi parseURL JSON_parse fs r url
           = (Inr None, r'\<lparr>cache := (cache r')(url \<mapsto> None)\<rparr>)"
        by (simp add: resolve_multi_def)
      with c d show ?thesis by blast
    next
      case (Some basePath)
      show ?thesis
      proof (cases "basePath = []")
        case True
        with Some Inr assms f have "resolve_multi parseURL JSON_parse fs r url
           = (Inr None, r'\<lparr>cache := (cache r')(url \<mapsto> None)\<rparr>)"
          by (simp add: resolve_multi_def)
        with c d show ?thesis by blast
      next
        case False
        with Some Inr assms f d have "resolve_multi parseURL JSON_parse fs r url
           = (Inr (merge (collect_multi fs (instructionsDir r) basePath pathname)),
              r'\<lparr>cache := (cache r')(url \<mapsto>
                  merge (collect_multi fs (instructionsDir r) basePath pathname))\<rparr>)"
          by (simp add: resolve_multi_def Let_def)
        with c d show ?thesis by blast
      qed
    qed
  qed
qed

lemma resolve_multi_cache_step:
  assumes "cache (snd (resolve_multi parseURL JSON_parse fs r url)) u = Some (Some t)"
  shows "cache r u = Some (Some t) \<or> (u = url \<and> parseURL url \<noteq> None \<and> t \<noteq> [])"
proof (cases "cache r url")
  case (Some hit)
  with assms show ?thesis by (simp add: resolve_multi_hit)
next
  case None
  show ?thesis
  proof (cases "parseURL url")
    case None
    with \<open>cache r url = None\<close> assms show ?thesis
      by (simp add: resolve_multi_unparsed split: if_splits)
  next
    case (Some hp)
    obtain hostname pathname where hp: "hp = (hostname, pathname)" by (cases hp)
    from resolve_multi_parsed [where parseURL = parseURL and url = url and r = r
        and hostname = hostname and pathname = pathname and JSON_parse = JSON_parse and fs = fs,
        OF \<open>cache r url = None\<close> Some [unfolded hp]]
    obtain r' where c: "cache r' = cache r" and
      alt: "(\<exists>e. resolve_multi parseURL JSON_parse fs r url = (Inl e, r'))
      \<or> resolve_multi parseURL JSON_parse fs r url
           = (Inr None, r'\<lparr>cache := (cache r')(url \<mapsto> None)\<rparr>)
      \<or> (\<exists>basePath. resolve_multi parseURL JSON_parse fs r url
           = (Inr (merge (collect_multi fs (instructionsDir r) basePath pathname)),
              r'\<lparr>cache := (cache r')(url \<mapsto>
                  merge (collect_multi fs (instructionsDir r) basePath pathname))\<rparr>))"
      by blast
    from alt show ?thesis
    proof (elim disjE exE)
      fix e assume "resolve_multi parseURL JSON_parse fs r url = (Inl e, r')"
      with assms c show ?thesis by simp
    next
      assume "resolve_multi parseURL JSON_parse fs r url
           = (Inr None, r'\<lparr>cache := (cache r')(url \<mapsto> None)\<rparr>)"
      with assms c show ?thesis by (simp split: if_splits)
    next
      fix basePath
      assume "resolve_multi parseURL JSON_parse fs r url
           = (Inr (merge (collect_multi fs (instructionsDir r) basePath pathname)),
              r'\<lparr>cache := (cache r')(url \<mapsto>
                  merge (collect_multi fs (instructionsDir r) basePath pathname))\<rparr>)"
      with assms c Some
        merge_nonempty [OF collect_multi_trimmed [of fs "instructionsDir r" basePath pathname]]
      show ?thesis by (auto split: if_splits)
    qed
  qed
qed

lemma reachable_multi_cache:
  "reachable_multi parseURL JSON_parse r \<Longrightarrow> cache r u = Some (Some t) \<Longrightarrow>
     parseURL u \<noteq> None \<and> t \<noteq> []"
proof (induction arbitrary: u t rule: reachable_multi.induct)
  case (created pluginRoot)
  then show ?case by (simp add: new_mt_resolver_def)
next
  case (resolved r fs url)
  from resolve_multi_cache_step [OF resolved.prems] resolved.IH show ?case by blast
next
  case (cleared r)
  then show ?case by (simp add: clearCache_multi_def)
qed

lemma resolve_single_cache_step:
  assumes "cache (snd (resolve_single parseURL fs r url)) u = Some (Some t)"
  shows "cache r u = Some (Some t) \<or> t \<noteq> []"
proof (cases "cache r url")
  case (Some hit)
  with assms show ?thesis by (simp add: resolve_single_def)
next
  case None
  with assms merge_nonempty [OF collect_single_trimmed
      [of fs "instructionsDir r" "pathname_single parseURL url"]]
  show ?thesis by (auto simp: resolve_single_def Let_def split: if_splits)
qed

lemma reachable_single_cache:
  "reachable_single parseURL r \<Longrightarrow> cache r u = Some (Some t) \<Longrightarrow> t \<noteq> []"
proof (induction arbitrary: u t rule: reachable_single.induct)
  case (created1 pluginRoot)
  then show ?case by (simp add: new_resolver_def)
next
  case (resolved1 r fs url)
  from resolve_single_cache_step [OF resolved1.prems] resolved1.IH show ?case by blast
next
  case (cleared1 r)
  then show ?case by (simp add: clearCache_single_def)
qed

section \<open>URLs that do not parse\<close>

text \<open>
  Claim C6. Let the URL fail to parse. The single-tenant \<open>resolve\<close>, on a cache miss, takes
  the raw string as the path, with a slash put in front when it does not start with one,
  resolves that path and caches the result under the raw string. The multi-tenant
  \<open>resolve\<close>, on any resolver a caller can hold, returns null whatever the store holds and
  has null cached under the raw string afterwards. Neither outcome is an error: the
  single-tenant model has no error outcome at all, the multi-tenant outcome is \<open>Inr\<close>.
\<close>

theorem unparseable_url_handling:
  assumes "parseURL url = None"
    and "reachable_multi parseURL JSON_parse r"
    and "cache r1 url = None"
  shows "fst (resolve_single parseURL fs r1 url)
           = merge (collect_single fs (instructionsDir r1)
                      (if prefix ''/'' url then url else ''/'' @ url))
       \<and> cache (snd (resolve_single parseURL fs r1 url)) url
           = Some (fst (resolve_single parseURL fs r1 url))
       \<and> resolve_multi parseURL JSON_parse fs' r url
           = (Inr None, r\<lparr>cache := (cache r)(url \<mapsto> None)\<rparr>)"
proof -
  have single: "fst (resolve_single parseURL fs r1 url)
           = merge (collect_single fs (instructionsDir r1)
                      (if prefix ''/'' url then url else ''/'' @ url))"
    using assms(1,3) by (simp add: resolve_single_def pathname_single_def Let_def)
  have stored: "cache (snd (resolve_single parseURL fs r1 url)) url
           = Some (fst (resolve_single parseURL fs r1 url))"
    using assms(3) by (simp add: resolve_single_def Let_def)
  have multi: "resolve_multi parseURL JSON_parse fs' r url
           = (Inr None, r\<lparr>cache := (cache r)(url \<mapsto> None)\<rparr>)"
  proof (cases "cache r url")
    case None
    then show ?thesis using assms(1) by (rule resolve_multi_unparsed)
  next
    case (Some hit)
    have "hit = None"
    proof (cases hit)
      case (Some t)
      with \<open>cache r url = Some hit\<close> reachable_multi_cache [OF assms(2), of url t] assms(1)
      show ?thesis by simp
    qed simp
    with Some have c: "cache r url = Some None" by simp
    then have "(cache r)(url \<mapsto> None) = cache r" by (simp add: fun_upd_idem)
    then have "r\<lparr>cache := (cache r)(url \<mapsto> None)\<rparr> = r" by simp
    with resolve_multi_hit [OF c] show ?thesis by simp
  qed
  from single stored multi show ?thesis by blast
qed

theorem unparseable_url_handling_witness:
  "demo_parseURL ''seo'' = None
   \<and> reachable_multi demo_parseURL demo_JSON_parse (new_mt_resolver ''/plugin'')
   \<and> cache (new_resolver ''/plugin'') ''seo'' = None
   \<and> fst (resolve_single demo_parseURL (scenarioA_store ''Root'' ''SEO'') (new_resolver ''/plugin'') ''seo'')
       = merge (collect_single (scenarioA_store ''Root'' ''SEO'')
                  (instructionsDir (new_resolver ''/plugin''))
                  (if prefix ''/'' ''seo'' then ''seo'' else ''/'' @ ''seo''))
   \<and> cache (snd (resolve_single demo_parseURL (scenarioA_store ''Root'' ''SEO'')
                    (new_resolver ''/plugin'') ''seo'')) ''seo''
       = Some (fst (resolve_single demo_parseURL (scenarioA_store ''Root'' ''SEO'')
                    (new_resolver ''/plugin'') ''seo''))
   \<and> resolve_multi demo_parseURL demo_JSON_parse demo_store (new_mt_resolver ''/plugin'') ''seo''
       = (Inr None, (new_mt_resolver ''/plugin'')
            \<lparr>cache := (cache (new_mt_resolver ''/plugin''))(''seo'' \<mapsto> None)\<rparr>)
   \<and> fst (resolve_single demo_parseURL (scenarioA_store ''Root'' ''SEO'') (new_resolver ''/plugin'') ''seo'')
       = Some (''Root'' @ separator @ ''SEO'')"
proof -
  have h1: "demo_parseURL ''seo'' = None" by code_simp
  have h2: "reachable_multi demo_parseURL demo_JSON_parse (new_mt_resolver ''/plugin'')"
    by (rule reachable_multi.created)
  have h3: "cache (new_resolver ''/plugin'') ''seo'' = None"
    by (simp add: new_resolver_def)
  note c = unparseable_url_handling [where parseURL = demo_parseURL and url = "''seo''"
      and JSON_parse = demo_JSON_parse and r = "new_mt_resolver ''/plugin''"
      and ?r1.0 = "new_resolver ''/plugin''" and fs = "scenarioA_store ''Root'' ''SEO''"
      and fs' = demo_store, OF h1 h2 h3]
  have v: "fst (resolve_single demo_parseURL (scenarioA_store ''Root'' ''SEO'')
      (new_resolver ''/plugin'') ''seo'') = Some (''Root'' @ separator @ ''SEO'')"
    by code_simp
  show ?thesis
    by (intro conjI h1 h2 h3 c [THEN conjunct1] c [THEN conjunct2, THEN conjunct1]
        c [THEN conjunct2, THEN conjunct2] v)
qed

section \<open>Scenario A\<close>

lemma scenarioA_paths:
  "path_join [''/plugin/instructions'', ''_base.md''] = ''/plugin/instructions/_base.md''"
  "path_join [''/plugin/instructions'', [], ''seo''] = ''/plugin/instructions/seo''"
  "path_join [[], ''seo''] = ''seo''"
  "path_join [''seo'', ''_base.md''] = ''seo/_base.md''"
  "path_join [''/plugin/instructions'', ''seo/_base.md''] = ''/plugin/instructions/seo/_base.md''"
  "path_join [''/plugin/instructions'', ''seo'', ''dashboard'']
     = ''/plugin/instructions/seo/dashboard''"
  "path_join [''seo/dashboard'', ''123.md''] = ''seo/dashboard/123.md''"
  "path_join [''/plugin/instructions'', ''seo/dashboard/123.md'']
     = ''/plugin/instructions/seo/dashboard/123.md''"
  by code_simp+

lemma scenarioA_segments:
  "segments_of ''/seo/dashboard/123'' = [''seo'', ''dashboard'', ''123'']"
  "foldersToTry ''seo'' = [''seo'']"
  "foldersToTry ''dashboard'' = [''dashboard'']"
  by code_simp+

lemma scenarioA_loop:
  assumes "trim seoText \<noteq> []" and "rest \<noteq> []"
  shows "walk (scenarioA_store rootText seoText) ''/plugin/instructions'' []
           (''seo'' # ''dashboard'' # rest) acc = acc @ [trim seoText]"
proof -
  let ?fs = "scenarioA_store rootText seoText"
  let ?dir = "''/plugin/instructions''"
  have m1: "matchFolder ?fs ?dir [] (foldersToTry ''seo'') = Some ''seo''"
    by (simp add: scenarioA_segments scenarioA_paths existsSync_def scenarioA_store_def)
  have b: "loadFile ?fs ?dir (path_join [path_join [[], ''seo''], ''_base.md'']) = Some (trim seoText)"
    by (simp add: scenarioA_paths loadFile_def existsSync_def readFileSync_def scenarioA_store_def)
  have m2: "matchFolder ?fs ?dir (path_join [[], ''seo'']) (foldersToTry ''dashboard'') = None"
    by (simp add: scenarioA_segments scenarioA_paths existsSync_def scenarioA_store_def)
  have "walk ?fs ?dir [] (''seo'' # ''dashboard'' # rest) acc
      = walk ?fs ?dir (path_join [[], ''seo'']) (''dashboard'' # rest) (acc @ [trim seoText])"
    by (simp add: walk_match [OF m1] b push_truthy_def assms(1))
  also have "\<dots> = acc @ [trim seoText]"
    by (simp add: walk_no_match [OF m2] assms(2))
  finally show ?thesis .
qed

text \<open>
  Claim C7 (Scenario A), as amended. On the store that holds exactly a root \<open>_base.md\<close>
  and \<open>seo/_base.md\<close>, each with text left after trimming, the single-tenant \<open>resolve\<close>
  of the path \<open>/seo/dashboard/123\<close> returns the trimmed root base document, then two
  line feeds, three hyphens and two line feeds, then the trimmed seo base document. The
  loop appends the seo base document and stops at \<open>dashboard\<close>: whatever segments follow
  \<open>dashboard\<close>, it yields the same two documents, and no leaf file is appended.
\<close>

theorem scenario_A:
  assumes "trim rootText \<noteq> []" and "trim seoText \<noteq> []"
    and "instructionsDir r = ''/plugin/instructions''"
    and "cache r url = None"
    and "pathname_single parseURL url = ''/seo/dashboard/123''"
  shows "fst (resolve_single parseURL (scenarioA_store rootText seoText) r url)
           = Some (trim rootText
                   @ [CHR 0x0A, CHR 0x0A, CHR ''-'', CHR ''-'', CHR ''-'', CHR 0x0A, CHR 0x0A]
                   @ trim seoText)
       \<and> (\<forall>rest. rest \<noteq> [] \<longrightarrow>
             walk (scenarioA_store rootText seoText) (instructionsDir r) []
               (''seo'' # ''dashboard'' # rest) [trim rootText]
             = [trim rootText, trim seoText])"
proof -
  let ?fs = "scenarioA_store rootText seoText"
  let ?dir = "''/plugin/instructions''"
  have root: "loadFile ?fs ?dir ''_base.md'' = Some (trim rootText)"
    by (simp add: scenarioA_paths loadFile_def existsSync_def readFileSync_def scenarioA_store_def)
  have loop: "walk ?fs ?dir [] (''seo'' # ''dashboard'' # rest) [trim rootText]
      = [trim rootText, trim seoText]" if "rest \<noteq> []" for rest
    using scenarioA_loop [OF assms(2) that, of rootText "[trim rootText]"] by simp
  have exact: "loadFile ?fs ?dir (path_join [''seo/dashboard'', ''123.md'']) = None"
    by (simp add: scenarioA_paths loadFile_def existsSync_def scenarioA_store_def)
  have "collect_single ?fs ?dir ''/seo/dashboard/123'' = [trim rootText, trim seoText]"
    by (simp add: collect_single_def scenarioA_segments root push_truthy_def assms(1) loop
        exact push_exact_def)
  then have "fst (resolve_single parseURL ?fs r url)
      = Some (trim rootText
              @ [CHR 0x0A, CHR 0x0A, CHR ''-'', CHR ''-'', CHR ''-'', CHR 0x0A, CHR 0x0A]
              @ trim seoText)"
    using assms(3,4,5) by (simp add: resolve_single_def Let_def merge_def separator_def)
  with loop assms(3) show ?thesis by simp
qed

theorem scenario_A_witness:
  "trim '' Root '' \<noteq> [] \<and> trim ''SEO'' \<noteq> []
   \<and> instructionsDir (new_resolver ''/plugin'') = ''/plugin/instructions''
   \<and> cache (new_resolver ''/plugin'') ''/seo/dashboard/123'' = None
   \<and> pathname_single demo_parseURL ''/seo/dashboard/123'' = ''/seo/dashboard/123''
   \<and> fst (resolve_single demo_parseURL (scenarioA_store '' Root '' ''SEO'')
            (new_resolver ''/plugin'') ''/seo/dashboard/123'')
       = Some (trim '' Root ''
               @ [CHR 0x0A, CHR 0x0A, CHR ''-'', CHR ''-'', CHR ''-'', CHR 0x0A, CHR 0x0A]
               @ trim ''SEO'')
   \<and> trim '' Root '' = ''Root'' \<and> trim ''SEO'' = ''SEO''"
proof -
  have h1: "trim '' Root '' \<noteq> []" by code_simp
  have h2: "trim ''SEO'' \<noteq> []" by code_simp
  have h3: "instructionsDir (new_resolver ''/plugin'') = ''/plugin/instructions''" by code_simp
  have h4: "cache (new_resolver ''/plugin'') ''/seo/dashboard/123'' = None"
    by (simp add: new_resolver_def)
  have h5: "pathname_single demo_parseURL ''/seo/dashboard/123'' = ''/seo/dashboard/123''"
    by code_simp
  note c = scenario_A [where parseURL = demo_parseURL and url = "''/seo/dashboard/123''"
      and r = "new_resolver ''/plugin''" and rootText = "'' Root ''" and seoText = "''SEO''",
      OF h1 h2 h3 h4 h5]
  have t1: "trim '' Root '' = ''Root''" by code_simp
  have t2: "trim ''SEO'' = ''SEO''" by code_simp
  show ?thesis by (intro conjI h1 h2 h3 h4 h5 c [THEN conjunct1] t1 t2)
qed

text \<open>
  The claim as it was stated (for every store holding exactly the two base files) fails when
  one of them holds only whitespace: such a file is left out, and with a blank
  \<open>seo/_base.md\<close> the result is the root base document alone, with no separator.
\<close>

theorem scenario_A_blank_counterexample:
  "scenarioA_store ''Root'' [CHR 0x20, CHR 0x0A] ''/plugin/instructions/seo/_base.md''
     = Some (File [CHR 0x20, CHR 0x0A])
   \<and> fst (resolve_single demo_parseURL (scenarioA_store ''Root'' [CHR 0x20, CHR 0x0A])
          (new_resolver ''/plugin'') ''/seo/dashboard/123'') = Some ''Root''"
proof -
  have stored: "scenarioA_store ''Root'' [CHR 0x20, CHR 0x0A] ''/plugin/instructions/seo/_base.md''
     = Some (File [CHR 0x20, CHR 0x0A])"
    by code_simp
  have result: "fst (resolve_single demo_parseURL (scenarioA_store ''Root'' [CHR 0x20, CHR 0x0A])
          (new_resolver ''/plugin'') ''/seo/dashboard/123'') = Some ''Root''"
    by code_simp
  show ?thesis by (intro conjI stored result)
qed

section \<open>No empty document\<close>

text \<open>
  Claim C10, as amended. A file whose text trims to the empty string is handled as an absent
  one: it is never appended. Every document of the list that \<open>resolve\<close> joins is not empty
  and has no whitespace at either end, in both variants, and \<open>resolve\<close> never returns the
  empty string, on any resolver a caller can hold.
\<close>

theorem documents_never_empty:
  "push_truthy (Some []) acc = push_truthy None acc
   \<and> push_exact (Some []) acc = push_exact None acc
   \<and> (\<forall>d \<in> set (collect_multi fs dir basePath pathname).
         d \<noteq> [] \<and> \<not> is_space (hd d) \<and> \<not> is_space (last d))
   \<and> (\<forall>d \<in> set (collect_single fs dir pathname).
         d \<noteq> [] \<and> \<not> is_space (hd d) \<and> \<not> is_space (last d))
   \<and> (reachable_multi parseURL JSON_parse r \<longrightarrow>
         fst (resolve_multi parseURL JSON_parse fs r url) \<noteq> Inr (Some []))
   \<and> (reachable_single parseURL r1 \<longrightarrow>
         fst (resolve_single parseURL fs r1 url) \<noteq> Some [])"
proof -
  have a: "push_truthy (Some []) acc = push_truthy None acc" by (simp add: push_truthy_def)
  have b: "push_exact (Some []) acc = push_exact None acc" by (simp add: push_exact_def)
  have c: "\<forall>d \<in> set (collect_multi fs dir basePath pathname).
         d \<noteq> [] \<and> \<not> is_space (hd d) \<and> \<not> is_space (last d)"
    using collect_multi_trimmed [of fs dir basePath pathname]
    by (simp add: list_all_iff well_trimmed_def)
  have d: "\<forall>d \<in> set (collect_single fs dir pathname).
         d \<noteq> [] \<and> \<not> is_space (hd d) \<and> \<not> is_space (last d)"
    using collect_single_trimmed [of fs dir pathname]
    by (simp add: list_all_iff well_trimmed_def)
  have e: "fst (resolve_multi parseURL JSON_parse fs r url) \<noteq> Inr (Some [])"
    if reach: "reachable_multi parseURL JSON_parse r"
  proof
    assume emp: "fst (resolve_multi parseURL JSON_parse fs r url) = Inr (Some [])"
    obtain r' where run: "resolve_multi parseURL JSON_parse fs r url = (Inr (Some []), r')"
      using emp by (cases "resolve_multi parseURL JSON_parse fs r url") auto
    from resolve_multi_cached [OF run] have "cache r' url = Some (Some [])" by simp
    moreover have "reachable_multi parseURL JSON_parse r'"
      using reachable_multi.resolved [OF reach, of fs url] run by simp
    ultimately show False using reachable_multi_cache by blast
  qed
  have f: "fst (resolve_single parseURL fs r1 url) \<noteq> Some []"
    if reach: "reachable_single parseURL r1"
  proof
    assume emp: "fst (resolve_single parseURL fs r1 url) = Some []"
    obtain r' where run: "resolve_single parseURL fs r1 url = (Some [], r')"
      using emp by (cases "resolve_single parseURL fs r1 url") auto
    from resolve_single_cached [OF run] have "cache r' url = Some (Some [])" by simp
    moreover have "reachable_single parseURL r'"
      using reachable_single.resolved1 [OF reach, of fs url] run by simp
    ultimately show False using reachable_single_cache by blast
  qed
  from a b c d e f show ?thesis by blast
qed

theorem documents_never_empty_witness:
  "reachable_multi demo_parseURL demo_JSON_parse (new_mt_resolver ''/plugin'')
   \<and> reachable_single demo_parseURL (new_resolver ''/plugin'')
   \<and> ''SEO'' \<in> set (collect_multi demo_store ''/plugin/instructions'' ''semrush'' ''/seo'')
   \<and> ''SEO'' \<in> set (collect_single (scenarioA_store ''Root'' ''SEO'') ''/plugin/instructions'' ''/seo'')
   \<and> (''SEO'' \<noteq> [] \<and> \<not> is_space (hd ''SEO'') \<and> \<not> is_space (last ''SEO''))
   \<and> fst (resolve_multi demo_parseURL demo_JSON_parse demo_store (new_mt_resolver ''/plugin'')
            ''https://semrush.com/seo'') \<noteq> Inr (Some [])
   \<and> fst (resolve_single demo_parseURL (scenarioA_store ''Root'' ''SEO'')
            (new_resolver ''/plugin'') ''/seo'') \<noteq> Some []"
proof -
  have h1: "reachable_multi demo_parseURL demo_JSON_parse (new_mt_resolver ''/plugin'')"
    by (rule reachable_multi.created)
  have h2: "reachable_single demo_parseURL (new_resolver ''/plugin'')"
    by (rule reachable_single.created1)
  have h3: "''SEO'' \<in> set (collect_multi demo_store ''/plugin/instructions'' ''semrush'' ''/seo'')"
    by code_simp
  have h4: "''SEO'' \<in> set (collect_single (scenarioA_store ''Root'' ''SEO'')
      ''/plugin/instructions'' ''/seo'')"
    by code_simp
  note m = documents_never_empty [where fs = demo_store and dir = "''/plugin/instructions''"
      and basePath = "''semrush''" and pathname = "''/seo''" and parseURL = demo_parseURL
      and JSON_parse = demo_JSON_parse and r = "new_mt_resolver ''/plugin''"
      and url = "''https://semrush.com/seo''" and ?r1.0 = "new_resolver ''/plugin''"
      and acc = "[]"]
  note s = documents_never_empty [where fs = "scenarioA_store ''Root'' ''SEO''"
      and dir = "''/plugin/instructions''" and pathname = "''/seo''" and parseURL = demo_parseURL
      and JSON_parse = demo_JSON_parse and r = "new_mt_resolver ''/plugin''"
      and url = "''/seo''" and ?r1.0 = "new_resolver ''/plugin''" and acc = "[]"
      and basePath = "''semrush''"]
  have c3: "''SEO'' \<noteq> [] \<and> \<not> is_space (hd ''SEO'') \<and> \<not> is_space (last ''SEO'')"
    using m [THEN conjunct2, THEN conjunct2, THEN conjunct1] h3 by (rule bspec)
  have c5: "fst (resolve_multi demo_parseURL demo_JSON_parse demo_store
      (new_mt_resolver ''/plugin'') ''https://semrush.com/seo'') \<noteq> Inr (Some [])"
    using m [THEN conjunct2, THEN conjunct2, THEN conjunct2, THEN conjunct2, THEN conjunct1] h1
    by (rule mp)
  have c6: "fst (resolve_single demo_parseURL (scenarioA_store ''Root'' ''SEO'')
            (new_resolver ''/plugin'') ''/seo'') \<noteq> Some []"
    using s [THEN conjunct2, THEN conjunct2, THEN conjunct2, THEN conjunct2, THEN conjunct2] h2
    by (rule mp)
  show ?thesis by (intro conjI h1 h2 h3 h4 c3 [THEN conjunct1] c3 [THEN conjunct2, THEN conjunct1]
        c3 [THEN conjunct2, THEN conjunct2] c5 c6)
qed

text \<open>
  The claim as it was stated speaks of the blocks that the separator delimits in the output.
  A document may hold the separator itself: with three line feeds on each side of a rule,
  the output splits at the separator into \<open>A\<close> followed by a line feed and a line feed
  followed by \<open>B\<close>, which have whitespace at an end.
\<close>

theorem separator_in_document_counterexample:
  "fst (resolve_multi demo_parseURL demo_JSON_parse rule_store (new_mt_resolver ''/plugin'')
          ''https://semrush.com/'')
     = Inr (Some ((''A'' @ [CHR 0x0A]) @ separator @ ([CHR 0x0A] @ ''B'')))
   \<and> is_space (last (''A'' @ [CHR 0x0A]))
   \<and> is_space (hd ([CHR 0x0A] @ ''B''))"
proof -
  have a: "fst (resolve_multi demo_parseURL demo_JSON_parse rule_store (new_mt_resolver ''/plugin'')
          ''https://semrush.com/'')
     = Inr (Some ((''A'' @ [CHR 0x0A]) @ separator @ ([CHR 0x0A] @ ''B'')))"
    by code_simp
  have b: "is_space (last (''A'' @ [CHR 0x0A]))" by code_simp
  have c: "is_space (hd ([CHR 0x0A] @ ''B''))" by code_simp
  show ?thesis by (intro conjI a b c)
qed

end
